theory Spec2Isabelle
  imports Complex_Main
begin

section \<open>Data model (src/types/workout.ts)\<close>

text \<open>
  JavaScript numbers are modelled as mathematical integers: every count, index and
  second count of the workout data and of the session state is a whole number.
  \<^verbatim>\<open>Duration = number | { min: number; max: number }\<close>, and the same for
  \<^verbatim>\<open>RepCount\<close>.
\<close>

datatype Duration = DurationNumber int | DurationRange int int

datatype RepCount = RepNumber int | RepRange int int

record BaseExercise =
  exerciseId :: string
  exerciseName :: string
  description :: "string option"
  tip :: "string option"
  sets :: int
  restAfterSet :: int

text \<open>The discriminated union \<^verbatim>\<open>Exercise = TimerExercise | RepsExercise\<close>.\<close>

datatype Exercise =
    TimerExercise BaseExercise Duration
  | RepsExercise BaseExercise RepCount

fun base :: "Exercise \<Rightarrow> BaseExercise" where
  "base (TimerExercise b d) = b"
| "base (RepsExercise b r) = b"

fun isTimerExercise :: "Exercise \<Rightarrow> bool" where
  "isTimerExercise (TimerExercise b d) = True"
| "isTimerExercise (RepsExercise b r) = False"

fun isRepsExercise :: "Exercise \<Rightarrow> bool" where
  "isRepsExercise (TimerExercise b d) = False"
| "isRepsExercise (RepsExercise b r) = True"

text \<open>
  \<^verbatim>\<open>Math.round\<close> rounds to the nearest integer, a tie going towards plus infinity.
\<close>

definition math_round :: "rat \<Rightarrow> int" where
  "math_round x = \<lfloor>x + 1 / 2\<rfloor>"

fun getTimerDuration :: "Duration \<Rightarrow> int" where
  "getTimerDuration (DurationNumber d) = d"
| "getTimerDuration (DurationRange mn mx) = math_round ((of_int mn + of_int mx) / 2)"

record WorkoutSection =
  sectionId :: string
  sectionName :: string
  exercises :: "Exercise list"

record Workout =
  workoutId :: string
  workoutName :: string
  workoutDescription :: "string option"
  sections :: "WorkoutSection list"

datatype WorkoutPhase = IDLE | EXERCISING | RESTING | COMPLETED

record WorkoutState =
  phase :: WorkoutPhase
  sectionIndex :: int
  exerciseIndex :: int
  currentSet :: int
  restDuration :: int

section \<open>The session state machine (hooks/useWorkout.ts)\<close>

text \<open>
  Reading a JavaScript array at an index outside \<open>0 .. length - 1\<close> gives
  \<^verbatim>\<open>undefined\<close>; here that is \<open>None\<close>.
\<close>

definition at_index :: "'a list \<Rightarrow> int \<Rightarrow> 'a option" where
  "at_index xs i = (if 0 \<le> i \<and> i < int (length xs) then Some (xs ! nat i) else None)"

text \<open>\<^verbatim>\<open>xs.slice(0, e)\<close>: a negative end counts from the end of the array.\<close>

definition slice0 :: "'a list \<Rightarrow> int \<Rightarrow> 'a list" where
  "slice0 xs e =
     (let n = int (length xs);
          k = (if e < 0 then max (n + e) 0 else min e n)
      in take (nat k) xs)"

definition INITIAL_STATE :: WorkoutState where
  "INITIAL_STATE =
     \<lparr>phase = IDLE, sectionIndex = 0, exerciseIndex = 0, currentSet = 1, restDuration = 0\<rparr>"

definition getExercise :: "Workout \<Rightarrow> WorkoutState \<Rightarrow> Exercise option" where
  "getExercise workout s =
     (case at_index (sections workout) (sectionIndex s) of
        None \<Rightarrow> None
      | Some section \<Rightarrow> at_index (exercises section) (exerciseIndex s))"

definition currentSectionName :: "Workout \<Rightarrow> WorkoutState \<Rightarrow> string" where
  "currentSectionName workout s =
     (case at_index (sections workout) (sectionIndex s) of
        None \<Rightarrow> []
      | Some section \<Rightarrow> sectionName section)"

definition currentTimerDuration :: "Workout \<Rightarrow> WorkoutState \<Rightarrow> int option" where
  "currentTimerDuration workout s =
     (case getExercise workout s of
        Some (TimerExercise b d) \<Rightarrow> Some (getTimerDuration d)
      | _ \<Rightarrow> None)"

definition exerciseCount :: "WorkoutSection list \<Rightarrow> int" where
  "exerciseCount secs = foldl (\<lambda>sum section. sum + int (length (exercises section))) 0 secs"

definition totalExercises :: "Workout \<Rightarrow> int" where
  "totalExercises workout = exerciseCount (sections workout)"

definition completedExercises :: "Workout \<Rightarrow> WorkoutState \<Rightarrow> int" where
  "completedExercises workout s =
     exerciseCount (slice0 (sections workout) (sectionIndex s)) + exerciseIndex s"

definition startWorkout :: "WorkoutState \<Rightarrow> WorkoutState" where
  "startWorkout prev = prev\<lparr>phase := EXERCISING\<rparr>"

definition completeSet :: "Workout \<Rightarrow> WorkoutState \<Rightarrow> WorkoutState" where
  "completeSet workout prev =
     (case at_index (sections workout) (sectionIndex prev) of
        None \<Rightarrow> prev
      | Some section \<Rightarrow>
          (case at_index (exercises section) (exerciseIndex prev) of
             None \<Rightarrow> prev
           | Some exercise \<Rightarrow>
               if currentSet prev < sets (base exercise) then
                 prev\<lparr>phase := RESTING,
                      currentSet := currentSet prev + 1,
                      restDuration := restAfterSet (base exercise)\<rparr>
               else if exerciseIndex prev < int (length (exercises section)) - 1 then
                 prev\<lparr>phase := RESTING,
                      exerciseIndex := exerciseIndex prev + 1,
                      currentSet := 1,
                      restDuration := restAfterSet (base exercise)\<rparr>
               else if sectionIndex prev < int (length (sections workout)) - 1 then
                 prev\<lparr>phase := RESTING,
                      sectionIndex := sectionIndex prev + 1,
                      exerciseIndex := 0,
                      currentSet := 1,
                      restDuration := restAfterSet (base exercise)\<rparr>
               else prev\<lparr>phase := COMPLETED\<rparr>))"

definition afterRest :: "WorkoutState \<Rightarrow> WorkoutState" where
  "afterRest prev = (if phase prev \<noteq> RESTING then prev else prev\<lparr>phase := EXERCISING\<rparr>)"

definition restartWorkout :: "WorkoutState \<Rightarrow> WorkoutState" where
  "restartWorkout prev = INITIAL_STATE"

text \<open>The four mutators the hook returns, and a session as a sequence of calls.\<close>

datatype Call = StartWorkout | CompleteSet | AfterRest | RestartWorkout

fun call :: "Workout \<Rightarrow> WorkoutState \<Rightarrow> Call \<Rightarrow> WorkoutState" where
  "call workout s StartWorkout = startWorkout s"
| "call workout s CompleteSet = completeSet workout s"
| "call workout s AfterRest = afterRest s"
| "call workout s RestartWorkout = restartWorkout s"

definition session :: "Workout \<Rightarrow> Call list \<Rightarrow> WorkoutState" where
  "session workout calls = foldl (call workout) INITIAL_STATE calls"

text \<open>
  A well-formed workout: at least one section, every section with at least one
  exercise, every exercise with at least one set.
\<close>

definition wellFormed :: "Workout \<Rightarrow> bool" where
  "wellFormed workout \<longleftrightarrow>
     sections workout \<noteq> [] \<and>
     list_all (\<lambda>section. exercises section \<noteq> [] \<and>
                list_all (\<lambda>e. 1 \<le> sets (base e)) (exercises section))
              (sections workout)"

text \<open>Sample data used to evaluate the definitions.\<close>

definition mkTimer :: "string \<Rightarrow> int \<Rightarrow> int \<Rightarrow> Duration \<Rightarrow> Exercise" where
  "mkTimer n k r d =
     TimerExercise \<lparr>exerciseId = n, exerciseName = n, description = None, tip = None,
                    sets = k, restAfterSet = r\<rparr> d"

definition mkReps :: "string \<Rightarrow> int \<Rightarrow> int \<Rightarrow> RepCount \<Rightarrow> Exercise" where
  "mkReps n k r c =
     RepsExercise \<lparr>exerciseId = n, exerciseName = n, description = None, tip = None,
                   sets = k, restAfterSet = r\<rparr> c"

definition mkWorkout :: "Exercise list list \<Rightarrow> Workout" where
  "mkWorkout ess =
     \<lparr>workoutId = ''w'', workoutName = ''w'', workoutDescription = None,
      sections = map (\<lambda>es. \<lparr>sectionId = ''s'', sectionName = ''s'', exercises = es\<rparr>) ess\<rparr>"

text \<open>One section, one timed exercise: two sets of ten seconds, five seconds rest.\<close>

definition plank :: Workout where
  "plank = mkWorkout [[mkTimer ''plank'' 2 5 (DurationNumber 10)]]"

text \<open>Two sections: a warm-up of two exercises, then one exercise of reps.\<close>

definition circuit :: Workout where
  "circuit = mkWorkout
     [[mkTimer ''jog'' 1 30 (DurationRange 40 60), mkReps ''squat'' 2 0 (RepRange 6 8)],
      [mkReps ''press'' 1 20 (RepNumber 5)]]"

section \<open>The countdown timer (hooks/useTimer.ts)\<close>

datatype TimerStatus = Idle | Running | Paused | Finished

text \<open>
  The state of one instance of the hook: the three \<^verbatim>\<open>useState\<close> cells, whether
  \<^verbatim>\<open>intervalRef.current\<close> holds an installed interval, and how many times the
  completion callback \<^verbatim>\<open>onCompleteRef.current\<close> has been invoked so far.
\<close>

record Timer =
  timeRemaining :: int
  totalTime :: int
  status :: TimerStatus
  intervalRef :: bool
  completions :: nat

definition useTimer :: "int \<Rightarrow> Timer" where
  "useTimer initialDuration =
     \<lparr>timeRemaining = initialDuration, totalTime = initialDuration, status = Idle,
      intervalRef = False, completions = 0\<rparr>"

definition clearIntervalSafe :: "Timer \<Rightarrow> Timer" where
  "clearIntervalSafe t = (if intervalRef t then t\<lparr>intervalRef := False\<rparr> else t)"

text \<open>
  The callback given to \<^verbatim>\<open>setInterval\<close>, the same in \<^verbatim>\<open>start\<close> and in
  \<^verbatim>\<open>resume\<close>. It runs once a second for as long as the interval is installed;
  with no interval installed nothing runs. In \<open>tick\<close> the updater it hands to
  \<^verbatim>\<open>setTimeRemaining\<close> runs once for the firing, as in a production build of
  React; \<open>tickRuns\<close> below is the same firing with the number of runs left open.
\<close>

definition tick :: "Timer \<Rightarrow> Timer" where
  "tick t =
     (if \<not> intervalRef t then t
      else if timeRemaining t \<le> 1 then
        (clearIntervalSafe t)\<lparr>status := Finished,
                               completions := completions t + 1,
                               timeRemaining := 0\<rparr>
      else t\<lparr>timeRemaining := timeRemaining t - 1\<rparr>)"

text \<open>
  One run of the updater \<^verbatim>\<open>prev => { ... }\<close> of lines 136 to 147, on the time
  \<open>prev\<close> that React passes to it. When \<open>prev \<le> 1\<close> the run itself clears the
  interval, sets the status and calls \<^verbatim>\<open>onCompleteRef.current\<close>, before it
  returns 0.
\<close>

definition updater :: "int \<Rightarrow> Timer \<Rightarrow> Timer" where
  "updater prev t =
     (if prev \<le> 1 then
        (clearIntervalSafe t)\<lparr>status := Finished,
                               completions := completions t + 1,
                               timeRemaining := 0\<rparr>
      else t\<lparr>timeRemaining := prev - 1\<rparr>)"

text \<open>
  One firing of the interval when React runs each state updater \<open>runs\<close> times, every
  run on the same \<open>prev\<close>. A production build runs it once. A development build
  runs it twice inside \<^verbatim>\<open><StrictMode>\<close>, and main.tsx mounts the whole
  application inside \<^verbatim>\<open><StrictMode>\<close>.
\<close>

definition tickRuns :: "nat \<Rightarrow> Timer \<Rightarrow> Timer" where
  "tickRuns runs t =
     (if \<not> intervalRef t then t else (updater (timeRemaining t) ^^ runs) t)"

definition start :: "int \<Rightarrow> int option \<Rightarrow> Timer \<Rightarrow> Timer" where
  "start initialDuration duration t =
     (let d = (case duration of None \<Rightarrow> initialDuration | Some x \<Rightarrow> x)
      in (clearIntervalSafe t)\<lparr>totalTime := d, timeRemaining := d, status := Running,
                                intervalRef := True\<rparr>)"

definition pause :: "Timer \<Rightarrow> Timer" where
  "pause t = (clearIntervalSafe t)\<lparr>status := Paused\<rparr>"

text \<open>
  \<^verbatim>\<open>resume\<close> tests the status that its closure captured at the last render, and
  installs an interval without clearing one. Here every call finds the status the
  previous call or firing left, that is, a render lies between any two calls: each
  call comes from an event of its own (a click, a firing of the interval). Two calls
  made back to back inside one event handler are outside this model.
\<close>

definition resume :: "Timer \<Rightarrow> Timer" where
  "resume t = (if status t \<noteq> Paused then t else t\<lparr>status := Running, intervalRef := True\<rparr>)"

definition reset :: "int \<Rightarrow> Timer \<Rightarrow> Timer" where
  "reset initialDuration t =
     (clearIntervalSafe t)\<lparr>timeRemaining := initialDuration, totalTime := initialDuration,
                            status := Idle\<rparr>"

definition progress :: "Timer \<Rightarrow> rat" where
  "progress t =
     (if totalTime t > 0 then of_int (totalTime t - timeRemaining t) / of_int (totalTime t)
      else 0)"

text \<open>Letting the timer run: the interval fires until it has been cleared.\<close>

function runToCompletion :: "Timer \<Rightarrow> Timer" where
  "runToCompletion t = (if intervalRef t then runToCompletion (tick t) else t)"
  by pat_completeness auto
termination
  by (relation "measure (\<lambda>t. if intervalRef t then nat (max (timeRemaining t) 1) else 0)")
     (auto simp: tick_def clearIntervalSafe_def)

text \<open>What can happen to a timer: a call of one of its controls, or the interval firing.\<close>

datatype TimerEvent = Start "int option" | Pause | Resume | Reset | Tick

fun timerStep :: "int \<Rightarrow> Timer \<Rightarrow> TimerEvent \<Rightarrow> Timer" where
  "timerStep initialDuration t (Start duration) = start initialDuration duration t"
| "timerStep initialDuration t Pause = pause t"
| "timerStep initialDuration t Resume = resume t"
| "timerStep initialDuration t Reset = reset initialDuration t"
| "timerStep initialDuration t Tick = tick t"

definition timerRun :: "int \<Rightarrow> TimerEvent list \<Rightarrow> Timer" where
  "timerRun initialDuration events =
     foldl (timerStep initialDuration) (useTimer initialDuration) events"

text \<open>
  Both cursors resolve to an exercise, and the set counter lies within that
  exercise's sets.
\<close>

definition cursorsValid :: "Workout \<Rightarrow> WorkoutState \<Rightarrow> bool" where
  "cursorsValid w s =
     (case getExercise w s of
        None \<Rightarrow> False
      | Some e \<Rightarrow> 1 \<le> currentSet s \<and> currentSet s \<le> sets (base e))"

text \<open>An event whose duration, if it passes one, is at least one second.\<close>

fun durationOk :: "TimerEvent \<Rightarrow> bool" where
  "durationOk (Start (Some d)) = (1 \<le> d)"
| "durationOk _ = True"

section \<open>Evaluation rules and basic facts\<close>

declare runToCompletion.simps [simp del]

lemmas sample_defs = plank_def circuit_def mkWorkout_def mkTimer_def mkReps_def

lemmas session_defs =
  session_def INITIAL_STATE_def startWorkout_def afterRest_def restartWorkout_def
  completeSet_def at_index_def

lemmas timer_defs =
  timerRun_def useTimer_def start_def pause_def resume_def reset_def tick_def
  clearIntervalSafe_def

lemma at_index_bounds:
  "at_index xs i = Some x \<Longrightarrow> 0 \<le> i \<and> i < int (length xs) \<and> x = xs ! nat i"
  by (auto simp: at_index_def split: if_splits)

lemma completeSet_resolved:
  assumes "at_index (sections w) (sectionIndex s) = Some sec"
    and "at_index (exercises sec) (exerciseIndex s) = Some e"
  shows "completeSet w s =
     (if currentSet s < sets (base e) then
        s\<lparr>phase := RESTING, currentSet := currentSet s + 1,
          restDuration := restAfterSet (base e)\<rparr>
      else if exerciseIndex s < int (length (exercises sec)) - 1 then
        s\<lparr>phase := RESTING, exerciseIndex := exerciseIndex s + 1, currentSet := 1,
          restDuration := restAfterSet (base e)\<rparr>
      else if sectionIndex s < int (length (sections w)) - 1 then
        s\<lparr>phase := RESTING, sectionIndex := sectionIndex s + 1, exerciseIndex := 0,
          currentSet := 1, restDuration := restAfterSet (base e)\<rparr>
      else s\<lparr>phase := COMPLETED\<rparr>)"
  using assms by (simp add: completeSet_def)

lemma completeSet_unresolved:
  "getExercise w s = None \<Longrightarrow> completeSet w s = s"
proof (cases "at_index (sections w) (sectionIndex s)")
  case None
  then show ?thesis by (simp add: completeSet_def)
next
  case (Some sec)
  assume "getExercise w s = None"
  with Some have "at_index (exercises sec) (exerciseIndex s) = None"
    by (simp add: getExercise_def)
  with Some show ?thesis by (simp add: completeSet_def)
qed

lemma getExercise_resolved:
  assumes "getExercise w s = Some e"
  obtains sec where "at_index (sections w) (sectionIndex s) = Some sec"
    and "at_index (exercises sec) (exerciseIndex s) = Some e"
  using assms by (auto simp: getExercise_def split: option.splits)

lemma getExercise_phase [simp]: "getExercise w (s\<lparr>phase := p\<rparr>) = getExercise w s"
  by (simp add: getExercise_def cong: option.case_cong)

section \<open>The priority cascade of completeSet\<close>

text \<open>
  Claim C1. In a well-formed workout, with the session Exercising and both cursors
  resolving (the section at \<open>sectionIndex\<close>, the exercise at \<open>exerciseIndex\<close>),
  \<open>completeSet\<close> takes exactly one of four branches, tried in this order: more sets
  remain, so only \<open>currentSet\<close> is incremented; otherwise another exercise follows
  in the section, so \<open>exerciseIndex\<close> advances and \<open>currentSet\<close> is 1 again;
  otherwise another section follows, so \<open>sectionIndex\<close> advances, \<open>exerciseIndex\<close>
  is 0 and \<open>currentSet\<close> is 1; in these three the phase becomes Resting and
  \<open>restDuration\<close> the exercise's \<open>restAfterSet\<close>. Otherwise the phase becomes
  Completed and no other field changes. The four conditions exclude each other and,
  the cursors being in range, cover every case.
\<close>

theorem completeSet_cascade:
  assumes "wellFormed w"
    and "phase s = EXERCISING"
    and "at_index (sections w) (sectionIndex s) = Some sec"
    and "at_index (exercises sec) (exerciseIndex s) = Some e"
  shows "(currentSet s < sets (base e) \<longrightarrow>
           completeSet w s =
             s\<lparr>phase := RESTING, currentSet := currentSet s + 1,
               restDuration := restAfterSet (base e)\<rparr>)
       \<and> (\<not> currentSet s < sets (base e) \<and>
          exerciseIndex s + 1 < int (length (exercises sec)) \<longrightarrow>
           completeSet w s =
             s\<lparr>phase := RESTING, exerciseIndex := exerciseIndex s + 1, currentSet := 1,
               restDuration := restAfterSet (base e)\<rparr>)
       \<and> (\<not> currentSet s < sets (base e) \<and>
          exerciseIndex s + 1 = int (length (exercises sec)) \<and>
          sectionIndex s + 1 < int (length (sections w)) \<longrightarrow>
           completeSet w s =
             s\<lparr>phase := RESTING, sectionIndex := sectionIndex s + 1, exerciseIndex := 0,
               currentSet := 1, restDuration := restAfterSet (base e)\<rparr>)
       \<and> (\<not> currentSet s < sets (base e) \<and>
          exerciseIndex s + 1 = int (length (exercises sec)) \<and>
          sectionIndex s + 1 = int (length (sections w)) \<longrightarrow>
           completeSet w s = s\<lparr>phase := COMPLETED\<rparr>)
       \<and> (exerciseIndex s + 1 < int (length (exercises sec)) \<or>
          exerciseIndex s + 1 = int (length (exercises sec)))
       \<and> (sectionIndex s + 1 < int (length (sections w)) \<or>
          sectionIndex s + 1 = int (length (sections w)))"
  using completeSet_resolved [OF assms(3,4)] at_index_bounds [OF assms(3)]
    at_index_bounds [OF assms(4)]
  by auto

text \<open>
  The section-advance branch on the two-section workout: the last set of the last
  exercise of the first section.
\<close>

theorem completeSet_cascade_witness:
  "wellFormed circuit \<and>
   completeSet circuit
     \<lparr>phase = EXERCISING, sectionIndex = 0, exerciseIndex = 1, currentSet = 2,
      restDuration = 30\<rparr> =
     \<lparr>phase = RESTING, sectionIndex = 1, exerciseIndex = 0, currentSet = 1,
      restDuration = 0\<rparr>"
proof -
  let ?s = "\<lparr>phase = EXERCISING, sectionIndex = 0, exerciseIndex = 1, currentSet = 2,
      restDuration = 30\<rparr>"
  let ?sec = "\<lparr>sectionId = ''s'', sectionName = ''s'', exercises =
      [mkTimer ''jog'' 1 30 (DurationRange 40 60), mkReps ''squat'' 2 0 (RepRange 6 8)]\<rparr>"
  have wf: "wellFormed circuit"
    by (simp add: wellFormed_def sample_defs)
  have ph: "phase ?s = EXERCISING" by simp
  have sec: "at_index (sections circuit) (sectionIndex ?s) = Some ?sec"
    by (simp add: at_index_def sample_defs)
  have ex: "at_index (exercises ?sec) (exerciseIndex ?s) =
      Some (mkReps ''squat'' 2 0 (RepRange 6 8))"
    by (simp add: at_index_def)
  show ?thesis
    using wf completeSet_cascade [OF wf ph sec ex]
    by (simp add: sample_defs)
qed

section \<open>Progress at completion\<close>

lemma exerciseCount_snoc:
  "exerciseCount (secs @ [sec]) = exerciseCount secs + int (length (exercises sec))"
  by (simp add: exerciseCount_def)

lemma exerciseCount_last:
  assumes "secs \<noteq> []"
  shows "exerciseCount secs =
    exerciseCount (take (length secs - 1) secs) +
    int (length (exercises (secs ! (length secs - 1))))"
proof -
  have "secs = butlast secs @ [last secs]" using assms by simp
  then have "exerciseCount secs =
      exerciseCount (butlast secs) + int (length (exercises (last secs)))"
    using exerciseCount_snoc by metis
  then show ?thesis using assms by (simp add: butlast_conv_take last_conv_nth)
qed

text \<open>
  Whenever \<open>completeSet\<close> moves a session into Completed, it does so through its
  last branch, which leaves both cursors on the last exercise of the last section:
  the derived count is then one short of the total.
\<close>

lemma completedExercises_on_completion:
  assumes "phase s \<noteq> COMPLETED" and "phase (completeSet w s) = COMPLETED"
  shows "completedExercises w (completeSet w s) = totalExercises w - 1"
proof (cases "getExercise w s")
  case None
  then show ?thesis using assms by (simp add: completeSet_unresolved)
next
  case (Some e)
  then obtain sec where sec: "at_index (sections w) (sectionIndex s) = Some sec"
    and ex: "at_index (exercises sec) (exerciseIndex s) = Some e"
    by (rule getExercise_resolved)
  note b1 = at_index_bounds [OF sec] and b2 = at_index_bounds [OF ex]
  from assms(2) have last: "completeSet w s = s\<lparr>phase := COMPLETED\<rparr>"
    "exerciseIndex s = int (length (exercises sec)) - 1"
    "sectionIndex s = int (length (sections w)) - 1"
    using b1 b2 by (auto simp: completeSet_resolved [OF sec ex] split: if_splits)
  have ne: "sections w \<noteq> []" using b1 by auto
  have n: "nat (sectionIndex s) = length (sections w) - 1"
    using last(3) ne by (cases "sections w") auto
  have "slice0 (sections w) (sectionIndex s) = take (length (sections w) - 1) (sections w)"
    using b1 n by (simp add: slice0_def Let_def min_def)
  moreover have "sec = sections w ! (length (sections w) - 1)" using b1 n by simp
  ultimately show ?thesis
    using exerciseCount_last [OF ne] last
    by (simp add: completedExercises_def totalExercises_def)
qed

text \<open>
  Claim C2 says that \<open>completedExercises\<close> equals the total number of exercises
  right after the \<open>completeSet\<close> call that sets the phase to Completed. The code
  does not do that. On the workout of one section with one exercise of two sets, the
  calls start, completeSet, afterRest, completeSet end in Completed (the session
  was still Exercising before the last call), the total is 1, and
  \<open>completedExercises\<close> is 0.
\<close>

theorem completedExercises_at_completed:
  "phase (session plank [StartWorkout, CompleteSet, AfterRest]) = EXERCISING \<and>
   phase (session plank [StartWorkout, CompleteSet, AfterRest, CompleteSet]) = COMPLETED \<and>
   completedExercises plank
     (session plank [StartWorkout, CompleteSet, AfterRest, CompleteSet]) = 0 \<and>
   totalExercises plank = 1"
  by (simp add: session_defs sample_defs completedExercises_def totalExercises_def
      exerciseCount_def slice0_def)

section \<open>Calls made in the wrong phase\<close>

text \<open>
  Claim C3 says that \<open>completeSet\<close> leaves the state unchanged whenever the phase
  is not Exercising. The code of \<open>completeSet\<close> never reads the phase. Called on
  the initial state (phase Idle) it takes the first branch and answers a Resting state
  on set 2; called on that Resting state it goes on to Completed.
\<close>

theorem completeSet_not_exercising:
  "phase INITIAL_STATE = IDLE \<and>
   completeSet plank INITIAL_STATE =
     \<lparr>phase = RESTING, sectionIndex = 0, exerciseIndex = 0, currentSet = 2,
      restDuration = 5\<rparr> \<and>
   completeSet plank
     \<lparr>phase = RESTING, sectionIndex = 0, exerciseIndex = 0, currentSet = 2,
      restDuration = 5\<rparr> =
     \<lparr>phase = COMPLETED, sectionIndex = 0, exerciseIndex = 0, currentSet = 2,
      restDuration = 5\<rparr>"
  by (simp add: session_defs sample_defs)

text \<open>From Idle, \<open>startWorkout\<close> sets the phase and nothing else.\<close>

lemma startWorkout_from_idle:
  "phase s = IDLE \<Longrightarrow>
   phase (startWorkout s) = EXERCISING \<and>
   sectionIndex (startWorkout s) = sectionIndex s \<and>
   exerciseIndex (startWorkout s) = exerciseIndex s \<and>
   currentSet (startWorkout s) = currentSet s \<and>
   restDuration (startWorkout s) = restDuration s"
  by (simp add: startWorkout_def)

text \<open>
  Claim C4 says that \<open>startWorkout\<close> leaves the state unchanged when the phase is
  Exercising, Resting or Completed. The code of \<open>startWorkout\<close> sets the phase to
  Exercising whatever it was. After a finished workout (phase Completed) a further
  \<open>startWorkout\<close> puts the session back to Exercising on the last exercise, and
  from Resting it ends the rest.
\<close>

theorem startWorkout_not_idle:
  "session plank [StartWorkout, CompleteSet, AfterRest, CompleteSet] =
     \<lparr>phase = COMPLETED, sectionIndex = 0, exerciseIndex = 0, currentSet = 2,
      restDuration = 5\<rparr> \<and>
   session plank [StartWorkout, CompleteSet, AfterRest, CompleteSet, StartWorkout] =
     \<lparr>phase = EXERCISING, sectionIndex = 0, exerciseIndex = 0, currentSet = 2,
      restDuration = 5\<rparr> \<and>
   session plank [StartWorkout, CompleteSet] =
     \<lparr>phase = RESTING, sectionIndex = 0, exerciseIndex = 0, currentSet = 2,
      restDuration = 5\<rparr> \<and>
   session plank [StartWorkout, CompleteSet, StartWorkout] =
     \<lparr>phase = EXERCISING, sectionIndex = 0, exerciseIndex = 0, currentSet = 2,
      restDuration = 5\<rparr>"
  by (simp add: session_defs sample_defs)

section \<open>The cursor invariant\<close>

lemma cursorsValid_phase [simp]: "cursorsValid w (s\<lparr>phase := p\<rparr>) = cursorsValid w s"
  by (simp add: cursorsValid_def cong: option.case_cong)

lemma wellFormed_section:
  assumes "wellFormed w" and "at_index (sections w) i = Some sec"
  shows "exercises sec \<noteq> []" and "\<forall>e \<in> set (exercises sec). 1 \<le> sets (base e)"
proof -
  from assms(2) have "sec \<in> set (sections w)"
    by (auto simp: at_index_def split: if_splits)
  with assms(1) show "exercises sec \<noteq> []"
    and "\<forall>e \<in> set (exercises sec). 1 \<le> sets (base e)"
    by (auto simp: wellFormed_def list_all_iff)
qed

lemma wellFormed_exercise:
  assumes "wellFormed w" and "at_index (sections w) i = Some sec"
    and "at_index (exercises sec) j = Some e"
  shows "1 \<le> sets (base e)"
proof -
  from assms(3) have "e \<in> set (exercises sec)"
    by (auto simp: at_index_def split: if_splits)
  with wellFormed_section(2) [OF assms(1,2)] show ?thesis by blast
qed

lemma cursorsValid_initial:
  assumes "wellFormed w"
  shows "cursorsValid w INITIAL_STATE"
proof -
  from assms have ne: "sections w \<noteq> []" by (simp add: wellFormed_def)
  then have sec: "at_index (sections w) 0 = Some (sections w ! 0)"
    by (simp add: at_index_def)
  from wellFormed_section(1) [OF assms sec]
  have ex: "at_index (exercises (sections w ! 0)) 0 = Some (exercises (sections w ! 0) ! 0)"
    by (simp add: at_index_def)
  from wellFormed_exercise [OF assms sec ex] sec ex show ?thesis
    by (simp add: cursorsValid_def getExercise_def INITIAL_STATE_def)
qed

lemma cursorsValid_completeSet:
  assumes wf: "wellFormed w" and cv: "cursorsValid w s"
  shows "cursorsValid w (completeSet w s)"
proof -
  from cv obtain sec e where sec: "at_index (sections w) (sectionIndex s) = Some sec"
    and ex: "at_index (exercises sec) (exerciseIndex s) = Some e"
    and cs: "1 \<le> currentSet s" "currentSet s \<le> sets (base e)"
    by (auto simp: cursorsValid_def getExercise_def split: option.splits)
  note b1 = at_index_bounds [OF sec] and b2 = at_index_bounds [OF ex]
  consider (moreSets) "currentSet s < sets (base e)"
    | (nextExercise) "\<not> currentSet s < sets (base e)"
        "exerciseIndex s < int (length (exercises sec)) - 1"
    | (nextSection) "\<not> currentSet s < sets (base e)"
        "\<not> exerciseIndex s < int (length (exercises sec)) - 1"
        "sectionIndex s < int (length (sections w)) - 1"
    | (completed) "\<not> currentSet s < sets (base e)"
        "\<not> exerciseIndex s < int (length (exercises sec)) - 1"
        "\<not> sectionIndex s < int (length (sections w)) - 1"
    by blast
  then show ?thesis
  proof cases
    case moreSets
    then show ?thesis using sec ex cs
      by (simp add: completeSet_resolved [OF sec ex] cursorsValid_def getExercise_def)
  next
    case nextExercise
    let ?j = "exerciseIndex s + 1"
    have ex': "at_index (exercises sec) ?j = Some (exercises sec ! nat ?j)"
      using nextExercise b2 by (simp add: at_index_def)
    from wellFormed_exercise [OF wf sec ex'] nextExercise sec ex' show ?thesis
      by (simp add: completeSet_resolved [OF sec ex] cursorsValid_def getExercise_def)
  next
    case nextSection
    let ?i = "sectionIndex s + 1"
    have sec': "at_index (sections w) ?i = Some (sections w ! nat ?i)"
      using nextSection b1 by (simp add: at_index_def)
    from wellFormed_section(1) [OF wf sec']
    have ex': "at_index (exercises (sections w ! nat ?i)) 0 =
        Some (exercises (sections w ! nat ?i) ! 0)"
      by (simp add: at_index_def)
    from wellFormed_exercise [OF wf sec' ex'] nextSection sec' ex' show ?thesis
      by (simp add: completeSet_resolved [OF sec ex] cursorsValid_def getExercise_def)
  next
    case completed
    then show ?thesis using cv
      by (simp add: completeSet_resolved [OF sec ex])
  qed
qed

lemma cursorsValid_call:
  assumes "wellFormed w" and "cursorsValid w s"
  shows "cursorsValid w (call w s c)"
proof (cases c)
  case StartWorkout
  with assms(2) show ?thesis by (simp add: startWorkout_def)
next
  case CompleteSet
  with assms show ?thesis by (simp add: cursorsValid_completeSet)
next
  case AfterRest
  with assms(2) show ?thesis by (simp add: afterRest_def)
next
  case RestartWorkout
  with assms(1) show ?thesis by (simp add: restartWorkout_def cursorsValid_initial)
qed

lemma cursorsValid_foldl:
  assumes "wellFormed w" and "cursorsValid w s"
  shows "cursorsValid w (foldl (call w) s calls)"
  using assms(2)
  by (induction calls arbitrary: s) (simp_all add: cursorsValid_call [OF assms(1)])

lemma cursorsValid_session:
  "wellFormed w \<Longrightarrow> cursorsValid w (session w calls)"
  by (simp add: session_def cursorsValid_foldl cursorsValid_initial)

text \<open>
  Claim C7. For a well-formed workout, the state after any sequence of
  startWorkout, completeSet, afterRest and restartWorkout calls from the initial state
  satisfies: while the phase is not Completed, \<open>sectionIndex\<close> is an index of the
  sections and \<open>exerciseIndex\<close> an index of that section's exercises;
  \<open>currentSet\<close> is at least 1; and while the phase is Exercising, \<open>currentSet\<close> is
  at most the sets of the current exercise.
\<close>

theorem session_invariant:
  assumes "wellFormed w"
  shows "(phase (session w calls) \<noteq> COMPLETED \<longrightarrow>
            0 \<le> sectionIndex (session w calls) \<and>
            sectionIndex (session w calls) < int (length (sections w)) \<and>
            0 \<le> exerciseIndex (session w calls) \<and>
            exerciseIndex (session w calls) <
              int (length (exercises (sections w ! nat (sectionIndex (session w calls))))))
       \<and> 1 \<le> currentSet (session w calls)
       \<and> (phase (session w calls) = EXERCISING \<longrightarrow>
            (\<exists>e. getExercise w (session w calls) = Some e \<and>
                 currentSet (session w calls) \<le> sets (base e)))"
proof -
  let ?s = "session w calls"
  from cursorsValid_session [OF assms, of calls]
  obtain sec e where sec: "at_index (sections w) (sectionIndex ?s) = Some sec"
    and ex: "at_index (exercises sec) (exerciseIndex ?s) = Some e"
    and cs: "1 \<le> currentSet ?s" "currentSet ?s \<le> sets (base e)"
    by (auto simp: cursorsValid_def getExercise_def split: option.splits)
  note b1 = at_index_bounds [OF sec] and b2 = at_index_bounds [OF ex]
  have "getExercise w ?s = Some e" using sec ex by (simp add: getExercise_def)
  with b1 b2 cs show ?thesis by simp
qed

text \<open>
  On the two-section workout, five calls lead to the second set of the second
  exercise, phase Exercising.
\<close>

theorem session_invariant_witness:
  "wellFormed circuit \<and>
   phase (session circuit [StartWorkout, CompleteSet, AfterRest, CompleteSet, AfterRest]) =
     EXERCISING \<and>
   sectionIndex (session circuit [StartWorkout, CompleteSet, AfterRest, CompleteSet, AfterRest])
     < int (length (sections circuit)) \<and>
   1 \<le> currentSet (session circuit [StartWorkout, CompleteSet, AfterRest, CompleteSet, AfterRest]) \<and>
   (\<exists>e. getExercise circuit
          (session circuit [StartWorkout, CompleteSet, AfterRest, CompleteSet, AfterRest]) =
          Some e \<and>
        currentSet (session circuit [StartWorkout, CompleteSet, AfterRest, CompleteSet, AfterRest])
          \<le> sets (base e))"
proof -
  have wf: "wellFormed circuit"
    by (simp add: wellFormed_def sample_defs)
  have ph: "phase (session circuit [StartWorkout, CompleteSet, AfterRest, CompleteSet, AfterRest]) =
     EXERCISING"
    by (simp add: session_defs sample_defs)
  from session_invariant [OF wf, of "[StartWorkout, CompleteSet, AfterRest, CompleteSet, AfterRest]"]
  show ?thesis using wf ph by simp
qed

section \<open>Resolving a duration\<close>

lemma math_round_half: "math_round (of_int n / 2) = (n + 1) div 2"
proof -
  have eq: "(of_int n / 2 + 1 / 2 :: rat) = of_int (n + 1) / of_int 2"
    by (simp add: add_divide_distrib)
  have "math_round (of_int n / 2) = \<lfloor>(of_int n / 2 + 1 / 2 :: rat)\<rfloor>"
    by (simp only: math_round_def)
  also have "\<dots> = \<lfloor>(of_int (n + 1) / of_int 2 :: rat)\<rfloor>"
    by (simp only: eq)
  also have "\<dots> = (n + 1) div 2"
    by (rule floor_divide_of_int_eq)
  finally show ?thesis .
qed

text \<open>
  Claim C8. \<open>getTimerDuration\<close> answers a fixed duration unchanged and resolves a
  range to the rounded midpoint \<open>round ((min + max) / 2)\<close>, a half rounding up, which
  on whole seconds is \<open>(min + max + 1) div 2\<close>; the range 40 to 60 gives 50 and the
  range 5 to 6 gives 6. When the current exercise is a timed exercise,
  \<open>currentTimerDuration\<close> is that resolved duration.
\<close>

theorem getTimerDuration_resolution:
  "getTimerDuration (DurationNumber d) = d \<and>
   getTimerDuration (DurationRange mn mx) = math_round ((of_int mn + of_int mx) / 2) \<and>
   getTimerDuration (DurationRange mn mx) = (mn + mx + 1) div 2 \<and>
   getTimerDuration (DurationRange 40 60) = 50 \<and>
   getTimerDuration (DurationRange 5 6) = 6 \<and>
   (getExercise w s = Some (TimerExercise b dur) \<longrightarrow>
      currentTimerDuration w s = Some (getTimerDuration dur))"
  using math_round_half [of "mn + mx"] math_round_half [of "40 + 60"]
    math_round_half [of "5 + 6"]
  by (simp add: currentTimerDuration_def)

text \<open>The first exercise of the two-section workout is timed, 40 to 60 seconds.\<close>

theorem getTimerDuration_resolution_witness:
  "getExercise circuit INITIAL_STATE = Some (mkTimer ''jog'' 1 30 (DurationRange 40 60)) \<and>
   currentTimerDuration circuit INITIAL_STATE = Some 50"
proof -
  have ge: "getExercise circuit INITIAL_STATE =
      Some (TimerExercise \<lparr>exerciseId = ''jog'', exerciseName = ''jog'', description = None,
        tip = None, sets = 1, restAfterSet = 30\<rparr> (DurationRange 40 60))"
    by (simp add: getExercise_def at_index_def INITIAL_STATE_def sample_defs)
  from getTimerDuration_resolution [of _ 40 60 circuit INITIAL_STATE _ "DurationRange 40 60"] ge
  show ?thesis by (simp add: mkTimer_def)
qed

section \<open>What afterRest leaves alone\<close>

text \<open>
  Claim C9 ends with: \<open>restDuration\<close> returns to 0 only through
  \<open>restartWorkout\<close>. That part fails when an exercise has \<open>restAfterSet = 0\<close>:
  on the two-section workout, after the first exercise (rest 30) the session is back to
  Exercising with \<open>restDuration = 30\<close>, and completing the first set of the second
  exercise (rest 0) sets \<open>restDuration\<close> to 0.
\<close>

theorem restDuration_zero_counterexample:
  "restDuration (session circuit [StartWorkout, CompleteSet, AfterRest]) = 30 \<and>
   restDuration (session circuit [StartWorkout, CompleteSet, AfterRest, CompleteSet]) = 0"
  by (simp add: session_defs sample_defs)

text \<open>
  Claim C9, amended. \<open>afterRest\<close> changes the phase only (Resting to Exercising,
  any other phase kept): the cursors, the set counter and \<open>restDuration\<close> are as
  before, so \<open>restDuration\<close> keeps the value of the most recent \<open>completeSet\<close>
  after the session is back to Exercising. \<open>restartWorkout\<close> sets it to 0. Of the
  four calls, only \<open>restartWorkout\<close> and \<open>completeSet\<close> can change
  \<open>restDuration\<close>, and \<open>completeSet\<close> changes it to the \<open>restAfterSet\<close> of the
  current exercise: so it returns to 0 only through \<open>restartWorkout\<close>, or through a
  \<open>completeSet\<close> on an exercise whose \<open>restAfterSet\<close> is 0.
\<close>

theorem afterRest_frame:
  "phase (afterRest s) = (if phase s = RESTING then EXERCISING else phase s) \<and>
   sectionIndex (afterRest s) = sectionIndex s \<and>
   exerciseIndex (afterRest s) = exerciseIndex s \<and>
   currentSet (afterRest s) = currentSet s \<and>
   restDuration (afterRest s) = restDuration s \<and>
   restDuration (restartWorkout s) = 0 \<and>
   (restDuration (call w s c) \<noteq> restDuration s \<longrightarrow>
      c = RestartWorkout \<or>
      c = CompleteSet \<and>
        (\<exists>e. getExercise w s = Some e \<and> restDuration (call w s c) = restAfterSet (base e)))"
proof -
  have "restDuration (call w s c) \<noteq> restDuration s \<longrightarrow>
      c = RestartWorkout \<or>
      c = CompleteSet \<and>
        (\<exists>e. getExercise w s = Some e \<and> restDuration (call w s c) = restAfterSet (base e))"
  proof (cases c)
    case CompleteSet
    show ?thesis
    proof (cases "getExercise w s")
      case None
      with CompleteSet show ?thesis by (simp add: completeSet_unresolved)
    next
      case (Some e)
      then obtain sec where sec: "at_index (sections w) (sectionIndex s) = Some sec"
        and ex: "at_index (exercises sec) (exerciseIndex s) = Some e"
        by (rule getExercise_resolved)
      from CompleteSet Some show ?thesis
        by (simp add: completeSet_resolved [OF sec ex])
    qed
  qed (simp_all add: startWorkout_def afterRest_def)
  then show ?thesis
    by (simp add: afterRest_def restartWorkout_def INITIAL_STATE_def)
qed

text \<open>
  A \<open>completeSet\<close> that changes \<open>restDuration\<close> from 0 to the exercise's 5 seconds,
  and the \<open>afterRest\<close> that follows it.
\<close>

theorem afterRest_frame_witness:
  "restDuration (call plank
      \<lparr>phase = EXERCISING, sectionIndex = 0, exerciseIndex = 0, currentSet = 1,
       restDuration = 0\<rparr> CompleteSet) = 5 \<and>
   getExercise plank
      \<lparr>phase = EXERCISING, sectionIndex = 0, exerciseIndex = 0, currentSet = 1,
       restDuration = 0\<rparr> = Some (mkTimer ''plank'' 2 5 (DurationNumber 10)) \<and>
   afterRest
      \<lparr>phase = RESTING, sectionIndex = 0, exerciseIndex = 0, currentSet = 2,
       restDuration = 5\<rparr> =
      \<lparr>phase = EXERCISING, sectionIndex = 0, exerciseIndex = 0, currentSet = 2,
       restDuration = 5\<rparr>"
  using afterRest_frame [of
      "\<lparr>phase = RESTING, sectionIndex = 0, exerciseIndex = 0, currentSet = 2,
       restDuration = 5\<rparr>" plank CompleteSet]
    afterRest_frame [of
      "\<lparr>phase = EXERCISING, sectionIndex = 0, exerciseIndex = 0, currentSet = 1,
       restDuration = 0\<rparr>" plank CompleteSet]
  by (simp add: session_defs getExercise_def sample_defs)

section \<open>The countdown\<close>

lemma tick_running:
  "intervalRef u \<Longrightarrow> 1 < timeRemaining u \<Longrightarrow>
   tick u = u\<lparr>timeRemaining := timeRemaining u - 1\<rparr>"
  by (simp add: tick_def)

lemma tick_last:
  "intervalRef u \<Longrightarrow> timeRemaining u \<le> 1 \<Longrightarrow>
   tick u = u\<lparr>timeRemaining := 0, status := Finished, intervalRef := False,
             completions := completions u + 1\<rparr>"
  by (simp add: tick_def clearIntervalSafe_def)

lemma tick_stopped: "\<not> intervalRef u \<Longrightarrow> tick u = u"
  by (simp add: tick_def)

lemma ticks_running:
  "intervalRef u \<Longrightarrow> int n < timeRemaining u \<Longrightarrow>
   (tick ^^ n) u = u\<lparr>timeRemaining := timeRemaining u - int n\<rparr>"
proof (induction n)
  case 0
  then show ?case by simp
next
  case (Suc n)
  then have "(tick ^^ n) u = u\<lparr>timeRemaining := timeRemaining u - int n\<rparr>" by simp
  moreover have "tick (u\<lparr>timeRemaining := timeRemaining u - int n\<rparr>) =
      u\<lparr>timeRemaining := timeRemaining u - int (Suc n)\<rparr>"
    using Suc.prems by (simp add: tick_running)
  ultimately show ?case by simp
qed

lemma ticks_to_zero:
  assumes "intervalRef u" and "1 \<le> timeRemaining u"
  shows "(tick ^^ nat (timeRemaining u)) u =
     u\<lparr>timeRemaining := 0, status := Finished, intervalRef := False,
       completions := completions u + 1\<rparr>"
proof -
  obtain n where n: "nat (timeRemaining u) = Suc n"
    using assms(2) by (cases "nat (timeRemaining u)") auto
  then have tr: "timeRemaining u = int n + 1" using assms(2) by linarith
  then have "(tick ^^ n) u = u\<lparr>timeRemaining := 1\<rparr>"
    using ticks_running [OF assms(1), of n] by simp
  then have "(tick ^^ Suc n) u = tick (u\<lparr>timeRemaining := 1\<rparr>)" by simp
  also have "\<dots> = u\<lparr>timeRemaining := 0, status := Finished, intervalRef := False,
       completions := completions u + 1\<rparr>"
    using assms(1) by (simp add: tick_last)
  finally show ?thesis using n by simp
qed

lemma runToCompletion_stopped: "\<not> intervalRef u \<Longrightarrow> runToCompletion u = u"
  by (subst runToCompletion.simps) simp

lemma runToCompletion_step:
  "intervalRef u \<Longrightarrow> runToCompletion u = runToCompletion (tick u)"
  by (subst runToCompletion.simps) simp

lemma runToCompletion_ticks:
  "intervalRef u \<Longrightarrow> 1 \<le> timeRemaining u \<Longrightarrow>
   runToCompletion u = (tick ^^ nat (timeRemaining u)) u"
proof (induction u rule: runToCompletion.induct)
  case (1 t)
  show ?case
  proof (cases "timeRemaining t = 1")
    case True
    with "1.prems" have tk: "tick t =
        t\<lparr>timeRemaining := 0, status := Finished, intervalRef := False,
          completions := completions t + 1\<rparr>"
      by (simp add: tick_last)
    have "runToCompletion t = runToCompletion (tick t)"
      using "1.prems"(1) by (rule runToCompletion_step)
    also have "\<dots> = tick t" by (rule runToCompletion_stopped) (simp add: tk)
    finally show ?thesis using True by simp
  next
    case False
    with "1.prems" have gt: "1 < timeRemaining t" by simp
    then have tk: "tick t = t\<lparr>timeRemaining := timeRemaining t - 1\<rparr>"
      using "1.prems" by (simp add: tick_running)
    have iv': "intervalRef (tick t)" and pos': "1 \<le> timeRemaining (tick t)"
      using "1.prems" gt by (simp_all add: tk)
    have "runToCompletion t = runToCompletion (tick t)"
      using "1.prems"(1) by (rule runToCompletion_step)
    also have "\<dots> = (tick ^^ nat (timeRemaining (tick t))) (tick t)"
      using "1.prems"(1) iv' pos' by (rule "1.IH")
    also have "\<dots> = (tick ^^ nat (timeRemaining t - 1)) (tick t)" by (simp add: tk)
    also have "\<dots> = (tick ^^ Suc (nat (timeRemaining t - 1))) t" by (simp add: funpow_swap1)
    also have "Suc (nat (timeRemaining t - 1)) = nat (timeRemaining t)" using gt by simp
    finally show ?thesis .
  qed
qed

text \<open>
  With one run of the updater for each firing (a production build). For a whole
  duration \<open>d \<ge> 1\<close>, \<open>start(d)\<close> on any timer sets \<open>timeRemaining\<close> and
  \<open>totalTime\<close> to \<open>d\<close>, the status to Running, and installs the interval. Each
  of the first \<open>d - 1\<close> firings takes exactly 1 from \<open>timeRemaining\<close> and changes
  nothing else; firing number \<open>d\<close> leaves \<open>timeRemaining = 0\<close> and status
  Finished, clears the interval and invokes the completion callback. Letting the timer
  run ends in exactly that state, and nothing fires afterwards.
\<close>

theorem start_runs_to_completion:
  assumes "1 \<le> d"
  shows "start initialDuration (Some d) t =
           t\<lparr>timeRemaining := d, totalTime := d, status := Running, intervalRef := True\<rparr>
       \<and> (\<forall>k. int k < d \<longrightarrow>
            (tick ^^ k) (start initialDuration (Some d) t) =
              (start initialDuration (Some d) t)\<lparr>timeRemaining := d - int k\<rparr>)
       \<and> (tick ^^ nat d) (start initialDuration (Some d) t) =
            (start initialDuration (Some d) t)
              \<lparr>timeRemaining := 0, status := Finished, intervalRef := False,
               completions := completions t + 1\<rparr>
       \<and> runToCompletion (start initialDuration (Some d) t) =
            (tick ^^ nat d) (start initialDuration (Some d) t)
       \<and> tick (runToCompletion (start initialDuration (Some d) t)) =
            runToCompletion (start initialDuration (Some d) t)"
proof -
  let ?u = "start initialDuration (Some d) t"
  have st: "?u = t\<lparr>timeRemaining := d, totalTime := d, status := Running, intervalRef := True\<rparr>"
    by (simp add: start_def clearIntervalSafe_def)
  have iv: "intervalRef ?u" and tr: "timeRemaining ?u = d"
    and cp: "completions ?u = completions t"
    by (simp_all add: st)
  have mid: "\<forall>k. int k < d \<longrightarrow> (tick ^^ k) ?u = ?u\<lparr>timeRemaining := d - int k\<rparr>"
  proof (intro allI impI)
    fix k :: nat
    assume "int k < d"
    then have "int k < timeRemaining ?u" by (simp only: tr)
    from ticks_running [OF iv this]
    show "(tick ^^ k) ?u = ?u\<lparr>timeRemaining := d - int k\<rparr>"
      by (simp only: tr)
  qed
  have pos: "1 \<le> timeRemaining ?u" using assms by (simp only: tr)
  have fin: "(tick ^^ nat d) ?u =
      ?u\<lparr>timeRemaining := 0, status := Finished, intervalRef := False,
         completions := completions t + 1\<rparr>"
    using ticks_to_zero [OF iv pos] by (simp only: tr cp)
  have run: "runToCompletion ?u = (tick ^^ nat d) ?u"
    using runToCompletion_ticks [OF iv pos] by (simp only: tr)
  have stop: "tick (runToCompletion ?u) = runToCompletion ?u"
    by (simp add: run fin tick_stopped)
  from st mid fin run stop show ?thesis by blast
qed

text \<open>A fresh timer of 30 seconds, started with a duration of 3.\<close>

theorem start_runs_to_completion_witness:
  "(1::int) \<le> 3 \<and>
   (tick ^^ 2) (start 30 (Some 3) (useTimer 30)) =
     \<lparr>timeRemaining = 1, totalTime = 3, status = Running, intervalRef = True,
      completions = 0\<rparr> \<and>
   runToCompletion (start 30 (Some 3) (useTimer 30)) =
     \<lparr>timeRemaining = 0, totalTime = 3, status = Finished, intervalRef = False,
      completions = 1\<rparr>"
proof -
  have h: "(1::int) \<le> 3" by simp
  note main = start_runs_to_completion [OF h, of 30 "useTimer 30"]
  have st: "start 30 (Some 3) (useTimer 30) =
     \<lparr>timeRemaining = 3, totalTime = 3, status = Running, intervalRef = True,
      completions = 0\<rparr>"
    by (simp add: start_def useTimer_def clearIntervalSafe_def)
  from main have "\<forall>k. int k < 3 \<longrightarrow>
            (tick ^^ k) (start 30 (Some 3) (useTimer 30)) =
              (start 30 (Some 3) (useTimer 30))\<lparr>timeRemaining := 3 - int k\<rparr>"
    by blast
  then have "int 2 < 3 \<longrightarrow> (tick ^^ 2) (start 30 (Some 3) (useTimer 30)) =
              (start 30 (Some 3) (useTimer 30))\<lparr>timeRemaining := 3 - int 2\<rparr>"
    by (rule spec)
  then have two: "(tick ^^ 2) (start 30 (Some 3) (useTimer 30)) =
     \<lparr>timeRemaining = 1, totalTime = 3, status = Running, intervalRef = True,
      completions = 0\<rparr>"
    by (simp add: st)
  from main have "runToCompletion (start 30 (Some 3) (useTimer 30)) =
            (tick ^^ nat 3) (start 30 (Some 3) (useTimer 30))"
    and "(tick ^^ nat 3) (start 30 (Some 3) (useTimer 30)) =
            (start 30 (Some 3) (useTimer 30))
              \<lparr>timeRemaining := 0, status := Finished, intervalRef := False,
               completions := completions (useTimer 30) + 1\<rparr>"
    by blast+
  then have run: "runToCompletion (start 30 (Some 3) (useTimer 30)) =
     \<lparr>timeRemaining = 0, totalTime = 3, status = Finished, intervalRef = False,
      completions = 1\<rparr>"
    unfolding st by (simp add: useTimer_def)
  from h two run show ?thesis by simp
qed

section \<open>The completion callback and repeated updater runs\<close>

text \<open>With one run for each firing, \<open>tickRuns\<close> is \<open>tick\<close>.\<close>

lemma tickRuns_once: "tickRuns 1 t = tick t"
  by (simp add: tickRuns_def updater_def tick_def)

lemma updater_last_runs:
  assumes "prev \<le> 1" and "intervalRef u"
  shows "(updater prev ^^ Suc n) u =
     u\<lparr>timeRemaining := 0, status := Finished, intervalRef := False,
       completions := completions u + Suc n\<rparr>"
proof (induction n)
  case 0
  from assms show ?case by (simp add: updater_def clearIntervalSafe_def)
next
  case (Suc n)
  have "(updater prev ^^ Suc (Suc n)) u = updater prev ((updater prev ^^ Suc n) u)" by simp
  also have "\<dots> = updater prev (u\<lparr>timeRemaining := 0, status := Finished, intervalRef := False,
       completions := completions u + Suc n\<rparr>)"
    by (simp only: Suc.IH)
  also have "\<dots> = u\<lparr>timeRemaining := 0, status := Finished, intervalRef := False,
       completions := completions u + Suc (Suc n)\<rparr>"
    using assms(1) by (simp add: updater_def clearIntervalSafe_def)
  finally show ?case .
qed

lemma updater_running_runs:
  assumes "1 < prev"
  shows "(updater prev ^^ Suc n) u = u\<lparr>timeRemaining := prev - 1\<rparr>"
proof (induction n)
  case 0
  from assms show ?case by (simp add: updater_def)
next
  case (Suc n)
  have "(updater prev ^^ Suc (Suc n)) u = updater prev ((updater prev ^^ Suc n) u)" by simp
  also have "\<dots> = updater prev (u\<lparr>timeRemaining := prev - 1\<rparr>)" by (simp only: Suc.IH)
  also have "\<dots> = u\<lparr>timeRemaining := prev - 1\<rparr>" using assms by (simp add: updater_def)
  finally show ?case .
qed

lemma tickRuns_last:
  "intervalRef u \<Longrightarrow> timeRemaining u \<le> 1 \<Longrightarrow>
   tickRuns (Suc n) u =
     u\<lparr>timeRemaining := 0, status := Finished, intervalRef := False,
       completions := completions u + Suc n\<rparr>"
  by (simp only: tickRuns_def updater_last_runs) simp

lemma tickRuns_running:
  "intervalRef u \<Longrightarrow> 1 < timeRemaining u \<Longrightarrow>
   tickRuns (Suc n) u = u\<lparr>timeRemaining := timeRemaining u - 1\<rparr>"
  by (simp only: tickRuns_def updater_running_runs) simp

lemma tickRuns_stopped: "\<not> intervalRef u \<Longrightarrow> tickRuns n u = u"
  by (simp add: tickRuns_def)

text \<open>
  Whatever the number of runs, \<open>d\<close> firings after \<open>start(d)\<close> end at
  \<open>timeRemaining = 0\<close> and status Finished with the interval cleared, and the
  completion callback has been invoked once for every run of the last updater.
\<close>

lemma firings_running:
  "intervalRef u \<Longrightarrow> int k < timeRemaining u \<Longrightarrow>
   (tickRuns (Suc n) ^^ k) u = u\<lparr>timeRemaining := timeRemaining u - int k\<rparr>"
proof (induction k)
  case 0
  then show ?case by simp
next
  case (Suc k)
  then have "(tickRuns (Suc n) ^^ k) u = u\<lparr>timeRemaining := timeRemaining u - int k\<rparr>"
    by simp
  moreover have "tickRuns (Suc n) (u\<lparr>timeRemaining := timeRemaining u - int k\<rparr>) =
      u\<lparr>timeRemaining := timeRemaining u - int (Suc k)\<rparr>"
    using Suc.prems by (simp add: tickRuns_running)
  ultimately show ?case by simp
qed

lemma firings_to_zero:
  assumes "1 \<le> d"
  shows "(tickRuns (Suc n) ^^ nat d) (start initialDuration (Some d) t) =
     (start initialDuration (Some d) t)
       \<lparr>timeRemaining := 0, status := Finished, intervalRef := False,
        completions := completions t + Suc n\<rparr>"
proof -
  let ?u = "start initialDuration (Some d) t"
  have iv: "intervalRef ?u" and tr: "timeRemaining ?u = d"
    and cp: "completions ?u = completions t"
    by (simp_all add: start_def clearIntervalSafe_def)
  obtain k where k: "nat d = Suc k" using assms by (cases "nat d") auto
  then have d: "d = int k + 1" using assms by linarith
  have lt: "int k < timeRemaining ?u" unfolding tr using d by simp
  have one: "d - int k = 1" using d by simp
  from firings_running [OF iv lt]
  have "(tickRuns (Suc n) ^^ k) ?u = ?u\<lparr>timeRemaining := 1\<rparr>"
    unfolding tr one .
  then have "(tickRuns (Suc n) ^^ Suc k) ?u = tickRuns (Suc n) (?u\<lparr>timeRemaining := 1\<rparr>)"
    by simp
  also have "\<dots> = ?u\<lparr>timeRemaining := 0, status := Finished, intervalRef := False,
        completions := completions t + Suc n\<rparr>"
    using iv cp by (simp add: tickRuns_last)
  finally show ?thesis by (simp only: k)
qed

text \<open>
  Claim C6 says that \<open>start(d)\<close>, left to tick to completion, invokes the completion
  callback exactly once. The code calls the callback inside the updater it hands to
  \<^verbatim>\<open>setTimeRemaining\<close>, and the application is mounted inside
  \<^verbatim>\<open><StrictMode>\<close>, where a development build runs every updater twice. There,
  a 30 second timer started with \<open>start(3)\<close> counts 3, 2, 1 as the claim says, and
  on its third firing ends at 0 and Finished with the callback invoked twice. With one
  run for each firing the same three firings invoke it once.
\<close>

theorem completion_callback_twice:
  "start 30 (Some 3) (useTimer 30) =
     \<lparr>timeRemaining = 3, totalTime = 3, status = Running, intervalRef = True,
      completions = 0\<rparr> \<and>
   tickRuns 2 (tickRuns 2 (start 30 (Some 3) (useTimer 30))) =
     \<lparr>timeRemaining = 1, totalTime = 3, status = Running, intervalRef = True,
      completions = 0\<rparr> \<and>
   tickRuns 2 (tickRuns 2 (tickRuns 2 (start 30 (Some 3) (useTimer 30)))) =
     \<lparr>timeRemaining = 0, totalTime = 3, status = Finished, intervalRef = False,
      completions = 2\<rparr> \<and>
   tickRuns 1 (tickRuns 1 (tickRuns 1 (start 30 (Some 3) (useTimer 30)))) =
     \<lparr>timeRemaining = 0, totalTime = 3, status = Finished, intervalRef = False,
      completions = 1\<rparr>"
  by (simp add: tickRuns_def updater_def start_def useTimer_def clearIntervalSafe_def
      numeral_2_eq_2)

section \<open>Pausing\<close>

text \<open>On a running timer \<open>pause\<close> stops the ticking and keeps the time.\<close>

lemma pause_running:
  "status t = Running \<Longrightarrow>
   status (pause t) = Paused \<and> \<not> intervalRef (pause t) \<and>
   timeRemaining (pause t) = timeRemaining t \<and> totalTime (pause t) = totalTime t \<and>
   completions (pause t) = completions t \<and> tick (pause t) = pause t"
  by (simp add: pause_def clearIntervalSafe_def tick_def)

text \<open>
  Claim C5 says that \<open>pause\<close> leaves the timer unchanged when the status is Idle,
  Paused or Finished. The code of \<open>pause\<close> sets the status to Paused whatever it
  was: a fresh timer (status Idle) becomes Paused, and so does a timer that has run
  to zero (status Finished).
\<close>

theorem pause_not_running:
  "status (useTimer 30) = Idle \<and>
   pause (useTimer 30) =
     \<lparr>timeRemaining = 30, totalTime = 30, status = Paused, intervalRef = False,
      completions = 0\<rparr> \<and>
   timerRun 1 [Start None, Tick] =
     \<lparr>timeRemaining = 0, totalTime = 1, status = Finished, intervalRef = False,
      completions = 1\<rparr> \<and>
   timerRun 1 [Start None, Tick, Pause] =
     \<lparr>timeRemaining = 0, totalTime = 1, status = Paused, intervalRef = False,
      completions = 1\<rparr>"
  by (simp add: timer_defs)

section \<open>A running timer and zero\<close>

text \<open>
  An interval is installed only while the status is Running. So \<open>resume\<close>, which
  acts only on a Paused timer, never installs a second interval beside a live one,
  and one flag for the interval is enough.
\<close>

lemma interval_only_running_step:
  "(intervalRef t \<longrightarrow> status t = Running) \<Longrightarrow>
   intervalRef (timerStep initialDuration t e) \<longrightarrow>
   status (timerStep initialDuration t e) = Running"
  by (cases e)
     (auto simp: start_def pause_def resume_def reset_def tick_def clearIntervalSafe_def
        Let_def)

lemma interval_only_running_foldl:
  "(intervalRef t \<longrightarrow> status t = Running) \<Longrightarrow>
   intervalRef (foldl (timerStep initialDuration) t events) \<longrightarrow>
   status (foldl (timerStep initialDuration) t events) = Running"
proof (induction events arbitrary: t)
  case Nil
  then show ?case by simp
next
  case (Cons e events)
  from Cons.IH [OF interval_only_running_step [OF Cons.prems]] show ?case by simp
qed

lemma interval_only_running:
  "intervalRef (timerRun initialDuration events) \<longrightarrow>
   status (timerRun initialDuration events) = Running"
  unfolding timerRun_def by (rule interval_only_running_foldl) (simp add: useTimer_def)

text \<open>
  With durations of at least one second, every event other than a \<open>pause\<close> of a
  Finished timer keeps \<open>timeRemaining \<ge> 1\<close> on every timer that is not Finished.
\<close>

lemma positive_step:
  assumes "1 \<le> initialDuration" and "durationOk e"
    and "e = Pause \<longrightarrow> status t \<noteq> Finished"
    and "status t \<noteq> Finished \<longrightarrow> 1 \<le> timeRemaining t"
  shows "status (timerStep initialDuration t e) \<noteq> Finished \<longrightarrow>
         1 \<le> timeRemaining (timerStep initialDuration t e)"
proof (cases e)
  case (Start x)
  with assms(1,2) show ?thesis by (cases x) (simp_all add: start_def clearIntervalSafe_def)
qed (use assms in \<open>auto simp: pause_def resume_def reset_def tick_def clearIntervalSafe_def\<close>)

text \<open>
  Claim C10 says that, with durations of at least 1, a Running timer always has
  \<open>timeRemaining \<ge> 1\<close>. The code reaches a Running timer at 0: a timer with initial
  duration 1 is started and fires once (Finished, 0 left); \<open>pause\<close> then makes it
  Paused and \<open>resume\<close> makes it Running, still at 0, with the interval installed.
  Its next firing invokes the completion callback a second time.
\<close>

theorem running_at_zero:
  "timerRun 1 [Start None, Tick, Pause, Resume] =
     \<lparr>timeRemaining = 0, totalTime = 1, status = Running, intervalRef = True,
      completions = 1\<rparr> \<and>
   timerRun 1 [Start None, Tick, Pause, Resume, Tick] =
     \<lparr>timeRemaining = 0, totalTime = 1, status = Finished, intervalRef = False,
      completions = 2\<rparr>"
  by (simp add: timer_defs)

end
